theory Spec2Isabelle
  imports Complex_Main "HOL-Library.List_Lexorder" "HOL-Library.Product_Lexorder"
begin

section \<open>Text values and the library functions the merge engine calls\<close>

text \<open>
  A Python \<open>str\<close> is a sequence of Unicode code points; a code point is a natural
  number, so \<open>len\<close> is \<open>length\<close> and string comparison is the lexicographic order
  on code points.
\<close>

type_synonym ustr = "nat list"

text \<open>
  A cell of a text column of a pandas frame: either missing (\<open>NaN\<close>, a float, which
  is not a \<open>str\<close> and is truthy) or a string.
\<close>

datatype cell = NaN | Str ustr

text \<open>
  The functions of the Python runtime and of the third-party packages that
  \<open>merge_dedupe.py\<close> calls. Their code is not part of the repository, so they are
  parameters of the model: \<open>str.isalnum\<close>, \<open>str.isspace\<close> and \<open>str.lower\<close> on one
  character (the lower-casing of one code point may be several code points),
  and \<open>rapidfuzz.fuzz.token_set_ratio\<close>.
\<close>

record pylib =
  isalnum :: "nat \<Rightarrow> bool"
  isspace :: "nat \<Rightarrow> bool"
  lower :: "nat \<Rightarrow> ustr"
  token_set_ratio :: "ustr \<Rightarrow> ustr \<Rightarrow> real"

text \<open>\<open>str.strip()\<close>: leading and trailing whitespace characters are removed.\<close>

definition strip :: "pylib \<Rightarrow> ustr \<Rightarrow> ustr" where
  "strip L s = rev (dropWhile (isspace L) (rev (dropWhile (isspace L) s)))"

text \<open>
  \<open>_norm_name\<close>: a value that is not a string gives the empty string; otherwise the
  characters that are alphanumeric or whitespace are kept, each lower-cased, the
  pieces joined and the result stripped.
\<close>

definition keep :: "pylib \<Rightarrow> nat \<Rightarrow> bool" where
  "keep L ch = (isalnum L ch \<or> isspace L ch)"

fun norm_name :: "pylib \<Rightarrow> cell \<Rightarrow> ustr" where
  "norm_name L NaN = []"
| "norm_name L (Str s) = strip L (concat (map (lower L) (filter (keep L) s)))"

text \<open>\<open>_fuzzy\<close>: the library score of the two normalised names.\<close>

definition fuzzy :: "pylib \<Rightarrow> cell \<Rightarrow> cell \<Rightarrow> real" where
  "fuzzy L a b = token_set_ratio L (norm_name L a) (norm_name L b)"

text \<open>
  The names on which lower-casing stays inside the retained characters: every
  character that \<open>_norm_name\<close> keeps lower-cases to characters that are themselves
  alphanumeric or whitespace and that lower-casing leaves alone. Every ASCII string
  is one, and so is a missing name.
\<close>

fun lower_closed :: "pylib \<Rightarrow> cell \<Rightarrow> bool" where
  "lower_closed L NaN = True"
| "lower_closed L (Str s) =
     (\<forall>c\<in>set s. keep L c \<longrightarrow> (\<forall>d\<in>set (lower L c). keep L d \<and> lower L d = [d]))"

subsection \<open>A concrete instance of the library\<close>

text \<open>
  CPython's character tables on the ASCII range and on the two code points U+0130
  (LATIN CAPITAL LETTER I WITH DOT ABOVE, a letter whose lower case is the two code
  points U+0069 U+0307) and U+0307 (COMBINING DOT ABOVE, a mark: neither alphanumeric
  nor whitespace). Other code points are outside this fragment and are treated as
  symbols unchanged by lower-casing.
\<close>

definition py_isalnum :: "nat \<Rightarrow> bool" where
  "py_isalnum c = ((48 \<le> c \<and> c \<le> 57) \<or> (65 \<le> c \<and> c \<le> 90) \<or> (97 \<le> c \<and> c \<le> 122) \<or> c = 304)"

definition py_isspace :: "nat \<Rightarrow> bool" where
  "py_isspace c = ((9 \<le> c \<and> c \<le> 13) \<or> (28 \<le> c \<and> c \<le> 32))"

definition py_lower :: "nat \<Rightarrow> ustr" where
  "py_lower c = (if 65 \<le> c \<and> c \<le> 90 then [c + 32] else if c = 304 then [105, 775] else [c])"

text \<open>
  \<open>rapidfuzz.fuzz.token_set_ratio\<close> without processor and without score cutoff,
  after the library's reference implementation: both strings are split at
  whitespace into sets of tokens; an empty token set gives 0; when one set contains
  the other the score is 100; otherwise the best of three normalised InDel
  similarities (InDel distance is the sum of the lengths less twice the longest
  common subsequence).
\<close>

fun split_acc :: "(nat \<Rightarrow> bool) \<Rightarrow> ustr \<Rightarrow> ustr \<Rightarrow> ustr list" where
  "split_acc sp cur [] = (if cur = [] then [] else [cur])"
| "split_acc sp cur (c # cs) =
     (if sp c then (if cur = [] then split_acc sp [] cs else cur # split_acc sp [] cs)
      else split_acc sp (cur @ [c]) cs)"

definition split :: "(nat \<Rightarrow> bool) \<Rightarrow> ustr \<Rightarrow> ustr list" where
  "split sp s = split_acc sp [] s"

fun join :: "ustr \<Rightarrow> ustr list \<Rightarrow> ustr" where
  "join sep [] = []"
| "join sep [x] = x"
| "join sep (x # y # ys) = x @ sep @ join sep (y # ys)"

fun lcs :: "ustr \<Rightarrow> ustr \<Rightarrow> nat" where
  "lcs [] ys = 0"
| "lcs (x # xs) [] = 0"
| "lcs (x # xs) (y # ys) =
     (if x = y then Suc (lcs xs ys) else max (lcs xs (y # ys)) (lcs (x # xs) ys))"

definition indel_distance :: "ustr \<Rightarrow> ustr \<Rightarrow> nat" where
  "indel_distance a b = length a + length b - 2 * lcs a b"

definition norm_distance :: "nat \<Rightarrow> nat \<Rightarrow> real" where
  "norm_distance d lensum = (if lensum \<noteq> 0 then 100 - 100 * real d / real lensum else 100)"

definition rf_token_set_ratio :: "(nat \<Rightarrow> bool) \<Rightarrow> ustr \<Rightarrow> ustr \<Rightarrow> real" where
  "rf_token_set_ratio sp s1 s2 =
     (let tokens_a = sort (remdups (split sp s1));
          tokens_b = sort (remdups (split sp s2))
      in if tokens_a = [] \<or> tokens_b = [] then 0
         else
           let intersect = filter (\<lambda>t. t \<in> set tokens_b) tokens_a;
               diff_ab = filter (\<lambda>t. t \<notin> set tokens_b) tokens_a;
               diff_ba = filter (\<lambda>t. t \<notin> set tokens_a) tokens_b
           in if intersect \<noteq> [] \<and> (diff_ab = [] \<or> diff_ba = []) then 100
              else
                let diff_ab_joined = join [32] diff_ab;
                    diff_ba_joined = join [32] diff_ba;
                    ab_len = length diff_ab_joined;
                    ba_len = length diff_ba_joined;
                    sect_len = length (join [32] intersect);
                    sep = (if sect_len \<noteq> 0 then 1 else 0);
                    sect_ab_len = sect_len + sep + ab_len;
                    sect_ba_len = sect_len + sep + ba_len;
                    result = norm_distance (indel_distance diff_ab_joined diff_ba_joined)
                               (sect_ab_len + sect_ba_len)
                in if sect_len = 0 then result
                   else max result
                          (max (norm_distance (sep + ab_len) (sect_len + sect_ab_len))
                               (norm_distance (sep + ba_len) (sect_len + sect_ba_len))))"

definition cpython :: pylib where
  "cpython = \<lparr> isalnum = py_isalnum, isspace = py_isspace, lower = py_lower,
               token_set_ratio = rf_token_set_ratio py_isspace \<rparr>"

text \<open>An ASCII literal as a string of code points.\<close>

definition ascii :: "string \<Rightarrow> ustr" where
  "ascii s = map of_char s"

section \<open>The frame of records\<close>

text \<open>
  The six columns that \<open>_geo_dedup\<close> backfills (\<open>prefer_cols\<close>), in the order of the
  source.
\<close>

datatype col = operator_brand | operator_company | operator_source_url | website | phone | email

definition prefer_cols :: "col list" where
  "prefer_cols = [operator_brand, operator_company, operator_source_url, website, phone, email]"

text \<open>
  One row of the input frame: its index label, the name, the coordinates (absent
  when the cell is missing), the source tag and the cells of the backfillable
  columns. Index labels are unique in a frame, as \<open>pd.concat(ignore_index=True)\<close>
  makes them; \<open>cand.loc[k]\<close> is then the one row labelled \<open>k\<close>, and a block is kept
  as the list of its rows.
\<close>

text \<open>
  A cell of a backfillable column. Such a column is whatever \<open>pd.read_csv\<close> makes
  of it: text, or, when every value parses so, integers, floats or booleans; a
  missing value is \<open>NaN\<close> (a float carried by \<open>VFloat\<close> is not \<open>NaN\<close>). The
  name and the source tag are text columns and stay cells of type \<open>cell\<close>.
\<close>

datatype pyval = VNaN | VStr ustr | VInt int | VFloat real | VBool bool

record park =
  idx :: nat
  name :: cell
  latitude :: "real option"
  longitude :: "real option"
  source_primary :: cell
  attrs :: "col \<Rightarrow> pyval"

text \<open>
  A row of the projected frame \<open>gdf\<close>: the planar point of \<open>to_crs(3857)\<close> and the
  bucket key of column \<open>cluster\<close>.
\<close>

record grow = park +
  geometry :: "real \<times> real"
  cluster :: ustr

text \<open>A row of the output: the merged record with its provenance column.\<close>

record merged = park +
  source_secondary :: ustr

datatype error = KeyError | ValueError

section \<open>Clustering within one bucket\<close>

text \<open>\<open>Point.distance\<close>: the Euclidean distance in the plane.\<close>

definition distance :: "real \<times> real \<Rightarrow> real \<times> real \<Rightarrow> real" where
  "distance p q = sqrt ((fst p - fst q)\<^sup>2 + (snd p - snd q)\<^sup>2)"

text \<open>Python truth of a name cell: \<open>NaN\<close> is a non-zero float, a string is true when non-empty.\<close>

fun truthy :: "cell \<Rightarrow> bool" where
  "truthy NaN = True"
| "truthy (Str s) = (s \<noteq> [])"

text \<open>The name test of line 34, between the seed \<open>row\<close> and a candidate \<open>row2\<close>.\<close>

definition name_match :: "pylib \<Rightarrow> cell \<Rightarrow> cell \<Rightarrow> bool" where
  "name_match L n n2 =
     (fuzzy L n n2 \<ge> 80 \<or> (truthy n \<and> truthy n2 \<and> norm_name L n = norm_name L n2))"

text \<open>
  The inner loop (lines 28 to 35): the block of seed \<open>row\<close> is the seed followed by
  the rows of the group, in group order, that are not the seed, not yet used, within
  the radius of the seed and whose name matches the seed's.
\<close>

definition joins :: "pylib \<Rightarrow> real \<Rightarrow> nat set \<Rightarrow> grow \<Rightarrow> grow \<Rightarrow> bool" where
  "joins L radius_m used row row2 =
     (\<not> (idx row2 = idx row \<or> idx row2 \<in> used)
      \<and> distance (geometry row) (geometry row2) \<le> radius_m
      \<and> name_match L (name row) (name row2))"

definition block_of :: "pylib \<Rightarrow> real \<Rightarrow> grow list \<Rightarrow> nat set \<Rightarrow> grow \<Rightarrow> grow list" where
  "block_of L radius_m cand used row = row # filter (joins L radius_m used row) cand"

text \<open>
  The outer loop (lines 24 to 36) over the rows of the group, with the set \<open>used\<close>
  of labels passed along; it returns the blocks in the order in which they are
  built.
\<close>

fun blocks_loop :: "pylib \<Rightarrow> real \<Rightarrow> grow list \<Rightarrow> nat set \<Rightarrow> grow list \<Rightarrow> grow list list" where
  "blocks_loop L radius_m cand used [] = []"
| "blocks_loop L radius_m cand used (row # rest) =
     (if idx row \<in> used then blocks_loop L radius_m cand used rest
      else let block = block_of L radius_m cand used row
           in block # blocks_loop L radius_m cand (used \<union> idx ` set block) rest)"

definition blocks :: "pylib \<Rightarrow> real \<Rightarrow> grow list \<Rightarrow> grow list list" where
  "blocks L radius_m cand = blocks_loop L radius_m cand {} cand"

section \<open>Merging one block\<close>

text \<open>
  The key of \<open>sort_values(by=["source_primary"], na_position="last")\<close>: strings in
  the order of Python strings, every missing tag after every string. The sort is the
  stable insertion sort \<open>sort_key\<close>; the base record is row 0 of the sorted block.
\<close>

fun tag_key :: "cell \<Rightarrow> bool \<times> ustr" where
  "tag_key NaN = (True, [])"
| "tag_key (Str s) = (False, s)"

definition base_of :: "grow list \<Rightarrow> grow" where
  "base_of block = hd (sort_key (\<lambda>k. tag_key (source_primary k)) block)"

text \<open>A source tag that is absent or empty.\<close>

definition tag_absent :: "cell \<Rightarrow> bool" where
  "tag_absent c = (c = NaN \<or> c = Str [])"

text \<open>
  The test of line 44 on the cell of the base record,
  \<open>pd.isna(v) or str(v or "").strip() == ""\<close>: the cell is taken as missing when
  it is \<open>NaN\<close>, when it is false in Python (the empty string, 0, 0.0, \<open>False\<close>: then
  \<open>v or ""\<close> is the empty string), or when it is a string of whitespace only.
\<close>

fun base_missing :: "pylib \<Rightarrow> pyval \<Rightarrow> bool" where
  "base_missing L VNaN = True"
| "base_missing L (VStr s) = (strip L s = [])"
| "base_missing L (VInt i) = (i = 0)"
| "base_missing L (VFloat x) = (x = 0)"
| "base_missing L (VBool b) = (\<not> b)"

text \<open>
  The test of line 47 on the cell of a member of the block,
  \<open>pd.notna(val) and str(val).strip()\<close>: the cell is taken when it is not \<open>NaN\<close>
  and its \<open>str\<close> is not blank. The \<open>str\<close> of a number or of a boolean is never
  blank, so 0 and \<open>False\<close> are taken here although line 44 counts them as missing.
\<close>

fun donor_ok :: "pylib \<Rightarrow> pyval \<Rightarrow> bool" where
  "donor_ok L VNaN = False"
| "donor_ok L (VStr s) = (strip L s \<noteq> [])"
| "donor_ok L (VInt i) = True"
| "donor_ok L (VFloat x) = True"
| "donor_ok L (VBool b) = True"

text \<open>
  One round of the loop over \<open>prefer_cols\<close> (lines 43 to 49): a column of the frame
  whose cell is missing on \<open>m\<close> by the test of line 44 takes the cell of the first
  row of the block, in block order, that passes the test of line 47. \<open>cols\<close> lists
  the backfillable columns that the frame has.
\<close>

definition backfill_col :: "pylib \<Rightarrow> col list \<Rightarrow> grow list \<Rightarrow> grow \<Rightarrow> col \<Rightarrow> grow" where
  "backfill_col L cols block m c =
     (if c \<in> set cols \<and> base_missing L (attrs m c)
      then (case find (\<lambda>k. donor_ok L (attrs k c)) block of
              None \<Rightarrow> m
            | Some k \<Rightarrow> m\<lparr>attrs := (attrs m)(c := attrs k c)\<rparr>)
      else m)"

text \<open>\<open>str\<close> of a source tag: a missing tag prints as \<open>nan\<close>.\<close>

fun str_cell :: "cell \<Rightarrow> ustr" where
  "str_cell NaN = [110, 97, 110]"
| "str_cell (Str s) = s"

definition provenance :: "grow list \<Rightarrow> grow \<Rightarrow> ustr" where
  "provenance block m =
     join [59] (map (\<lambda>k. str_cell (source_primary k)) (filter (\<lambda>k. idx k \<noteq> idx m) block))"

text \<open>
  Lines 37 to 51 for one block; the columns \<open>geometry\<close> and \<open>cluster\<close> are dropped
  from the result (line 52).
\<close>

definition merge_block :: "pylib \<Rightarrow> col list \<Rightarrow> grow list \<Rightarrow> merged" where
  "merge_block L cols block =
     (let m = foldl (backfill_col L cols block) (base_of block) prefer_cols
      in \<lparr> idx = idx m, name = name m, latitude = latitude m, longitude = longitude m,
           source_primary = source_primary m, attrs = attrs m,
           source_secondary = provenance block m \<rparr>)"

definition dedup_group :: "pylib \<Rightarrow> real \<Rightarrow> col list \<Rightarrow> grow list \<Rightarrow> merged list" where
  "dedup_group L radius_m cols grp = map (merge_block L cols) (blocks L radius_m grp)"

section \<open>Projection, bucketing and the driver\<close>

text \<open>\<open>round(-1)\<close> of numpy: the nearest multiple of ten, a tie going to the even multiple.\<close>

definition rint :: "real \<Rightarrow> int" where
  "rint x = (let f = \<lfloor>x\<rfloor>; d = x - of_int f
             in if d < 1/2 then f else if 1/2 < d then f + 1 else if even f then f else f + 1)"

fun digits :: "nat \<Rightarrow> ustr" where
  "digits n = (if n < 10 then [48 + n] else digits (n div 10) @ [48 + n mod 10])"

definition str_int :: "int \<Rightarrow> ustr" where
  "str_int i = (if i < 0 then 45 # digits (nat (- i)) else digits (nat i))"

definition bucket_key :: "real \<times> real \<Rightarrow> ustr" where
  "bucket_key p = str_int (10 * rint (fst p / 10)) @ [58] @ str_int (10 * rint (snd p / 10))"

text \<open>
  Lines 17 to 19 for one row. \<open>proj\<close> is the projection of \<open>to_crs(3857)\<close>, from
  longitude and latitude to the plane, a parameter of the model. A row without a
  coordinate has no finite point, and the integer cast of line 19 fails on it.
\<close>

definition to_geo :: "(real \<Rightarrow> real \<Rightarrow> real \<times> real) \<Rightarrow> park \<Rightarrow> grow option" where
  "to_geo proj r =
     (case (longitude r, latitude r) of
        (Some lon, Some lat) \<Rightarrow>
          Some \<lparr> idx = idx r, name = name r, latitude = latitude r, longitude = longitude r,
                 source_primary = source_primary r, attrs = attrs r,
                 geometry = proj lon lat, cluster = bucket_key (proj lon lat) \<rparr>
      | _ \<Rightarrow> None)"

text \<open>\<open>groupby("cluster")\<close>: the groups in ascending order of key, each in frame order.\<close>

definition groupby_cluster :: "grow list \<Rightarrow> grow list list" where
  "groupby_cluster gdf =
     map (\<lambda>key. filter (\<lambda>r. cluster r = key) gdf) (sort (remdups (map cluster gdf)))"

definition reset_index :: "'a park_scheme list \<Rightarrow> 'a park_scheme list" where
  "reset_index rows = map (\<lambda>(i, r). r\<lparr>idx := i\<rparr>) (zip [0..<length rows] rows)"

text \<open>
  \<open>_geo_dedup\<close>. With no output row, \<open>pd.DataFrame(out_rows)\<close> has no columns and
  dropping \<open>geometry\<close> and \<open>cluster\<close> from it raises \<open>KeyError\<close>.
\<close>

definition geo_dedup ::
  "(real \<Rightarrow> real \<Rightarrow> real \<times> real) \<Rightarrow> pylib \<Rightarrow> real \<Rightarrow> col list \<Rightarrow> park list \<Rightarrow> error + merged list" where
  "geo_dedup proj L radius_m cols df =
     (case those (map (to_geo proj) df) of
        None \<Rightarrow> Inl ValueError
      | Some gdf \<Rightarrow>
          (let out_rows = concat (map (dedup_group L radius_m cols) (groupby_cluster gdf))
           in if out_rows = [] then Inl KeyError else Inr (reset_index out_rows)))"

text \<open>
  \<open>main\<close>, from the frames read to the frame written: the frames are concatenated
  and relabelled; an empty frame is written out as it is; otherwise missing names
  become the empty string, rows without latitude or longitude are dropped and the
  rest goes through \<open>_geo_dedup\<close> with the default radius of 200.
\<close>

definition fillna_name :: "park \<Rightarrow> park" where
  "fillna_name r = (case name r of NaN \<Rightarrow> r\<lparr>name := Str []\<rparr> | Str s \<Rightarrow> r)"

definition has_coords :: "park \<Rightarrow> bool" where
  "has_coords r = (latitude r \<noteq> None \<and> longitude r \<noteq> None)"

definition main ::
  "(real \<Rightarrow> real \<Rightarrow> real \<times> real) \<Rightarrow> pylib \<Rightarrow> col list \<Rightarrow> park list list \<Rightarrow> error + merged list" where
  "main proj L cols frames =
     (let df = reset_index (concat frames)
      in if df = [] then Inr []
         else geo_dedup proj L 200 cols (filter has_coords (map fillna_name df)))"

section \<open>Sample rows\<close>

text \<open>
  A projected row with the given label, name, source tag, planar point and cells,
  for the concrete runs below.
\<close>

definition sample :: "nat \<Rightarrow> cell \<Rightarrow> cell \<Rightarrow> real \<times> real \<Rightarrow> (col \<Rightarrow> pyval) \<Rightarrow> grow" where
  "sample i n src p a =
     \<lparr> idx = i, name = n, latitude = Some 0, longitude = Some 0, source_primary = src,
       attrs = a, geometry = p, cluster = ascii ''0:0'' \<rparr>"

definition no_attrs :: "col \<Rightarrow> pyval" where
  "no_attrs c = VNaN"

text \<open>
  Three parks of one bucket: two listings of the same park 50 m apart and a depot
  next to the first.
\<close>

definition sunny_pk :: grow where
  "sunny_pk = sample 0 (Str (ascii ''Sunny Pk'')) (Str (ascii ''osm'')) (0, 0) no_attrs"

definition depot :: grow where
  "depot = sample 1 (Str (ascii ''Depot'')) (Str (ascii ''osm'')) (0, 10) no_attrs"

definition sunny_park :: grow where
  "sunny_park = sample 2 (Str (ascii ''Sunny Park'')) (Str (ascii ''brand'')) (30, 40) no_attrs"

text \<open>Two rows at one point whose names are punctuation only, and two without a name.\<close>

definition bang :: grow where
  "bang = sample 0 (Str (ascii ''!'')) (Str (ascii ''osm'')) (0, 0) no_attrs"

definition quest :: grow where
  "quest = sample 1 (Str (ascii ''?'')) (Str (ascii ''brand'')) (0, 0) no_attrs"

definition nameless :: "nat \<Rightarrow> grow" where
  "nameless i = sample i (Str []) (Str (ascii ''osm'')) (0, 0) no_attrs"

text \<open>
  A block of two records, the first tagged \<open>osm\<close>, the second with the empty string
  as its tag.
\<close>

definition tagged_osm :: grow where
  "tagged_osm = sample 0 (Str (ascii ''Park'')) (Str (ascii ''osm'')) (0, 0) no_attrs"

definition tagged_empty :: grow where
  "tagged_empty = sample 1 (Str (ascii ''Park'')) (Str []) (0, 0) no_attrs"

definition untagged :: grow where
  "untagged = sample 2 (Str (ascii ''Park'')) NaN (0, 0) no_attrs"

text \<open>
  A block of two records: the base (tag \<open>a\<close>) has a brand and a phone cell of one
  space, the other (tag \<open>b\<close>) has a phone number and an email address.
\<close>

definition base_attrs :: "col \<Rightarrow> pyval" where
  "base_attrs c = (if c = operator_brand then VStr (ascii ''NRMA'')
                   else if c = phone then VStr (ascii '' '') else VNaN)"

definition donor_attrs :: "col \<Rightarrow> pyval" where
  "donor_attrs c = (if c = operator_brand then VStr (ascii ''Big4'')
                    else if c = phone then VStr (ascii ''0400'')
                    else if c = email then VStr (ascii ''a@b.c'') else VNaN)"

definition base_row :: grow where
  "base_row = sample 0 (Str (ascii ''Park'')) (Str (ascii ''a'')) (0, 0) base_attrs"

definition donor_row :: grow where
  "donor_row = sample 1 (Str (ascii ''Park'')) (Str (ascii ''b'')) (0, 0) donor_attrs"

text \<open>
  A block of two records with a phone column of integers: the base (tag \<open>a\<close>) has
  the number 0, the other (tag \<open>b\<close>) the number 5.
\<close>

definition zero_phone :: "col \<Rightarrow> pyval" where
  "zero_phone c = (if c = phone then VInt 0 else VNaN)"

definition five_phone :: "col \<Rightarrow> pyval" where
  "five_phone c = (if c = phone then VInt 5 else VNaN)"

definition zero_row :: grow where
  "zero_row = sample 0 (Str (ascii ''Park'')) (Str (ascii ''a'')) (0, 0) zero_phone"

definition five_row :: grow where
  "five_row = sample 1 (Str (ascii ''Park'')) (Str (ascii ''b'')) (0, 0) five_phone"

text \<open>A third record at the point of \<open>bang\<close> and \<open>quest\<close>, its name the empty string.\<close>

definition anonymous :: grow where
  "anonymous = sample 2 (Str []) (Str (ascii ''osm'')) (0, 0) no_attrs"

section \<open>Evaluation of the concrete library\<close>

lemmas cpy = cpython_def strip_def keep_def py_isalnum_def py_isspace_def py_lower_def ascii_def

section \<open>Name normalisation\<close>

lemma strip_subset: "set (strip L s) \<subseteq> set s"
proof -
  have "set (strip L s) \<subseteq> set (dropWhile (isspace L) s)"
    unfolding strip_def using set_dropWhileD by fastforce
  also have "\<dots> \<subseteq> set s" using set_dropWhileD by fastforce
  finally show ?thesis .
qed

lemma dropWhile_rev_prefix:
  assumes "\<not> P (hd a) \<or> a = []"
  shows "dropWhile P (rev (dropWhile P (rev a))) = rev (dropWhile P (rev a))"
proof (cases "dropWhile P (rev a) = []")
  case True
  show ?thesis unfolding True by simp
next
  case False
  define b where "b = dropWhile P (rev a)"
  have "rev a = takeWhile P (rev a) @ b" by (simp add: b_def)
  then have a: "a = rev b @ rev (takeWhile P (rev a))" by (metis rev_append rev_rev_ident)
  from False have nb: "rev b \<noteq> []" by (simp add: b_def)
  with a have "hd a = hd (rev b)" by (metis hd_append2)
  moreover from nb a have "a \<noteq> []" by auto
  ultimately have "\<not> P (hd (rev b))" using assms by auto
  with nb have "dropWhile P (rev b) = rev b" by (cases "rev b") auto
  then show ?thesis by (simp add: b_def)
qed

lemma strip_idem: "strip L (strip L s) = strip L s"
proof -
  let ?P = "isspace L"
  let ?a = "dropWhile ?P s"
  have h: "\<not> ?P (hd ?a) \<or> ?a = []" using hd_dropWhile by blast
  have "dropWhile ?P (rev (dropWhile ?P (rev ?a))) = rev (dropWhile ?P (rev ?a))"
    using h by (rule dropWhile_rev_prefix [of "isspace L" "dropWhile (isspace L) s"])
  then show ?thesis by (simp add: strip_def)
qed

lemma concat_singletons: "\<forall>d\<in>set t. f d = [d] \<Longrightarrow> concat (map f t) = t"
  by (induction t) auto

lemma norm_name_twice:
  assumes "\<forall>c\<in>set s. keep L c \<longrightarrow> (\<forall>d\<in>set (lower L c). keep L d \<and> lower L d = [d])"
  shows "norm_name L (Str (norm_name L (Str s))) = norm_name L (Str s)"
proof -
  define u where "u = concat (map (lower L) (filter (keep L) s))"
  define t where "t = strip L u"
  have u: "\<forall>d\<in>set u. keep L d \<and> lower L d = [d]" using assms by (auto simp: u_def)
  have "set t \<subseteq> set u" by (simp add: t_def strip_subset)
  with u have t: "\<forall>d\<in>set t. keep L d \<and> lower L d = [d]" by blast
  then have "filter (keep L) t = t" by (simp add: filter_id_conv)
  moreover from t have "concat (map (lower L) t) = t" by (simp add: concat_singletons)
  ultimately have "norm_name L (Str t) = strip L t" by simp
  also have "\<dots> = t" by (simp add: t_def strip_idem)
  finally show ?thesis by (simp add: t_def u_def)
qed

text \<open>
  C9 (as amended). Normalising a normalised name returns it unchanged, for every
  string in which each retained character lower-cases to characters that are
  themselves alphanumeric or whitespace and are left alone by lower-casing. Every
  ASCII string is such a string.
\<close>

theorem norm_name_idempotent:
  assumes "\<forall>c\<in>set s. keep L c \<longrightarrow> (\<forall>d\<in>set (lower L c). keep L d \<and> lower L d = [d])"
  shows "norm_name L (Str (norm_name L (Str s))) = norm_name L (Str s)"
  using assms by (rule norm_name_twice)

theorem norm_name_idempotent_witness:
  "norm_name cpython (Str (norm_name cpython (Str (ascii '' A-b 9 '')))) = norm_name cpython (Str (ascii '' A-b 9 ''))
   \<and> norm_name cpython (Str (ascii '' A-b 9 '')) = ascii ''ab 9''"
proof -
  have h: "\<forall>c\<in>set (ascii '' A-b 9 ''). keep cpython c \<longrightarrow>
             (\<forall>d\<in>set (lower cpython c). keep cpython d \<and> lower cpython d = [d])"
    by (simp add: cpy)
  have "norm_name cpython (Str (ascii '' A-b 9 '')) = ascii ''ab 9''" by (simp add: cpy)
  with norm_name_idempotent [OF h] show ?thesis by simp
qed

text \<open>
  C9 as stated fails: U+0130 is alphanumeric and lower-cases to U+0069 U+0307; the
  combining mark U+0307 is not alphanumeric, so a second normalisation removes it.
\<close>

theorem norm_name_idempotent_counterexample:
  "norm_name cpython (Str (norm_name cpython (Str [304]))) \<noteq> norm_name cpython (Str [304])"
  by (simp add: cpy)

section \<open>Clustering: the blocks of one bucket\<close>

lemma distance_le_iff:
  "distance p q \<le> r \<longleftrightarrow> 0 \<le> r \<and> (fst p - fst q)\<^sup>2 + (snd p - snd q)\<^sup>2 \<le> r\<^sup>2"
proof -
  let ?s = "(fst p - fst q)\<^sup>2 + (snd p - snd q)\<^sup>2"
  show ?thesis
  proof (cases "0 \<le> r")
    case True
    then have "sqrt ?s \<le> r \<longleftrightarrow> ?s \<le> r\<^sup>2"
      by (metis real_sqrt_le_iff real_sqrt_abs abs_of_nonneg)
    with True show ?thesis by (simp add: distance_def)
  next
    case False
    have "0 \<le> sqrt ?s" by simp
    with False have "\<not> sqrt ?s \<le> r" by linarith
    with False show ?thesis by (simp add: distance_def)
  qed
qed

lemmas run = cpy rf_token_set_ratio_def split_def Let_def norm_distance_def indel_distance_def
  blocks_def block_of_def joins_def name_match_def fuzzy_def distance_le_iff sample_def

lemmas rows = sunny_pk_def depot_def sunny_park_def bang_def quest_def nameless_def anonymous_def

lemma trio_blocks: "blocks cpython 200 [sunny_pk, depot, sunny_park] = [[sunny_pk, sunny_park], [depot]]"
  by (simp add: run rows)

lemma block_of_idx_distinct:
  "distinct (map idx cand) \<Longrightarrow> distinct (map idx (block_of L r cand used row))"
  by (auto simp: block_of_def joins_def distinct_map_filter)

lemma block_of_fresh:
  "idx row \<notin> used \<Longrightarrow> x \<in> set (block_of L r cand used row) \<Longrightarrow> idx x \<notin> used"
  by (auto simp: block_of_def joins_def)

lemma block_of_subset:
  "row \<in> set cand \<Longrightarrow> set (block_of L r cand used row) \<subseteq> set cand"
  by (auto simp: block_of_def)

lemma idx_inj:
  "distinct (map idx cand) \<Longrightarrow> x \<in> set cand \<Longrightarrow> y \<in> set cand \<Longrightarrow> idx x = idx y \<Longrightarrow> x = y"
  by (meson distinct_map inj_onD)

lemma blocks_loop_fresh:
  "x \<in> set (concat (blocks_loop L r cand used rest)) \<Longrightarrow> idx x \<notin> used"
proof (induction rest arbitrary: used)
  case Nil
  then show ?case by simp
next
  case (Cons row rest)
  show ?case
  proof (cases "idx row \<in> used")
    case True
    with Cons show ?thesis by simp
  next
    case False
    let ?b = "block_of L r cand used row"
    from Cons.prems False
    have "x \<in> set ?b \<or> x \<in> set (concat (blocks_loop L r cand (used \<union> idx ` set ?b) rest))"
      by (simp add: Let_def)
    then show ?thesis
    proof
      assume "x \<in> set ?b"
      with False show ?thesis by (rule block_of_fresh)
    next
      assume "x \<in> set (concat (blocks_loop L r cand (used \<union> idx ` set ?b) rest))"
      then have "idx x \<notin> used \<union> idx ` set ?b" by (rule Cons.IH)
      then show ?thesis by simp
    qed
  qed
qed

lemma blocks_loop_subset:
  "set rest \<subseteq> set cand \<Longrightarrow> set (concat (blocks_loop L r cand used rest)) \<subseteq> set cand"
proof (induction rest arbitrary: used)
  case Nil
  then show ?case by simp
next
  case (Cons row rest)
  then have "row \<in> set cand" "set rest \<subseteq> set cand" by auto
  with Cons.IH block_of_subset [of row cand L r used] show ?case
    by (auto simp: Let_def)
qed

lemma blocks_loop_covers:
  assumes "distinct (map idx cand)"
  shows "set rest \<subseteq> set cand \<Longrightarrow> x \<in> set rest \<Longrightarrow>
         idx x \<in> used \<or> x \<in> set (concat (blocks_loop L r cand used rest))"
proof (induction rest arbitrary: used)
  case Nil
  then show ?case by simp
next
  case (Cons row rest)
  let ?b = "block_of L r cand used row"
  from Cons.prems have row: "row \<in> set cand" and rest: "set rest \<subseteq> set cand"
    and x: "x \<in> set cand" by auto
  show ?case
  proof (cases "idx row \<in> used")
    case True
    with Cons show ?thesis by auto
  next
    case False
    show ?thesis
    proof (cases "x = row")
      case True
      with False show ?thesis by (simp add: Let_def block_of_def)
    next
      case ne: False
      with Cons.prems have "x \<in> set rest" by simp
      with rest have "idx x \<in> used \<union> idx ` set ?b
                 \<or> x \<in> set (concat (blocks_loop L r cand (used \<union> idx ` set ?b) rest))"
        by (rule Cons.IH)
      moreover have "x \<in> set ?b" if "idx x \<in> idx ` set ?b"
      proof -
        from that obtain y where y: "y \<in> set ?b" "idx x = idx y" by auto
        with row have "y \<in> set cand" using block_of_subset by blast
        with assms x y have "x = y" by (auto dest: idx_inj)
        with y show ?thesis by simp
      qed
      ultimately show ?thesis using False by (auto simp: Let_def)
    qed
  qed
qed

lemma blocks_loop_distinct:
  assumes "distinct (map idx cand)"
  shows "distinct (map idx (concat (blocks_loop L r cand used rest)))"
proof (induction rest arbitrary: used)
  case Nil
  then show ?case by simp
next
  case (Cons row rest)
  define b where "b = block_of L r cand used row"
  define t where "t = concat (blocks_loop L r cand (used \<union> idx ` set b) rest)"
  show ?case
  proof (cases "idx row \<in> used")
    case True
    with Cons show ?thesis by simp
  next
    case False
    have 1: "distinct (map idx b)" unfolding b_def using assms by (rule block_of_idx_distinct)
    have 2: "distinct (map idx t)" unfolding t_def by (rule Cons.IH)
    have fresh: "idx y \<notin> idx ` set b" if "y \<in> set t" for y
      using blocks_loop_fresh [OF that [unfolded t_def]] by simp
    have 3: "set (map idx b) \<inter> set (map idx t) = {}"
    proof (rule ccontr)
      assume "set (map idx b) \<inter> set (map idx t) \<noteq> {}"
      then obtain k where k: "k \<in> idx ` set b" "k \<in> idx ` set t" by auto
      from k(2) obtain y where "y \<in> set t" "k = idx y" by auto
      with fresh k(1) show False by simp
    qed
    have "blocks_loop L r cand used (row # rest) = b # blocks_loop L r cand (used \<union> idx ` set b) rest"
      using False by (simp add: Let_def b_def)
    then have "map idx (concat (blocks_loop L r cand used (row # rest))) = map idx b @ map idx t"
      by (simp add: t_def)
    with 1 2 3 show ?thesis by (simp only: distinct_append)
  qed
qed

lemma blocks_nonempty: "b \<in> set (blocks_loop L r cand used rest) \<Longrightarrow> b \<noteq> []"
  by (induction rest arbitrary: used) (auto simp: Let_def block_of_def split: if_splits)

lemma blocks_loop_decomp:
  "blocks_loop L r cand used rest = pre @ b # post \<Longrightarrow>
   \<exists>row\<in>set rest. idx row \<notin> used \<union> idx ` \<Union> (set ` set pre)
      \<and> b = block_of L r cand (used \<union> idx ` \<Union> (set ` set pre)) row"
proof (induction rest arbitrary: used pre)
  case Nil
  then show ?case by simp
next
  case (Cons row rest)
  show ?case
  proof (cases "idx row \<in> used")
    case True
    with Cons.prems have "blocks_loop L r cand used rest = pre @ b # post" by simp
    from Cons.IH [OF this] show ?thesis by auto
  next
    case False
    define blk where "blk = block_of L r cand used row"
    from False Cons.prems
    have eq: "blk # blocks_loop L r cand (used \<union> idx ` set blk) rest = pre @ b # post"
      by (simp add: Let_def blk_def)
    show ?thesis
    proof (cases pre)
      case Nil
      with eq have "b = blk" by simp
      with Nil False show ?thesis by (simp add: blk_def)
    next
      case (Cons p pre')
      with eq have p: "p = blk" by simp
      from eq Cons have tl: "blocks_loop L r cand (used \<union> idx ` set blk) rest = pre' @ b # post"
        by auto
      have u: "used \<union> idx ` set blk \<union> idx ` \<Union> (set ` set pre') = used \<union> idx ` \<Union> (set ` set pre)"
        using Cons p by auto
      from Cons.IH [OF tl] u show ?thesis by auto
    qed
  qed
qed

lemma strip_Nil: "strip L [] = []" by (simp add: strip_def)

lemma rf_empty: "rf_token_set_ratio sp a [] = 0"
  by (simp add: rf_token_set_ratio_def split_def Let_def)

text \<open>
  C8. After clustering, the blocks of a bucket partition it: every row of the bucket
  is in a block, the blocks hold rows of the bucket only, no row occurs twice, and
  two different blocks share no row. The index labels of the bucket are unique, as
  in every frame the driver builds.
\<close>

theorem blocks_partition:
  assumes "distinct (map idx cand)"
  shows "\<Union> (set ` set (blocks L r cand)) = set cand
       \<and> distinct (concat (blocks L r cand))
       \<and> (\<forall>b1\<in>set (blocks L r cand). \<forall>b2\<in>set (blocks L r cand). b1 \<noteq> b2 \<longrightarrow> set b1 \<inter> set b2 = {})"
proof -
  let ?bs = "blocks L r cand"
  have sub: "set (concat ?bs) \<subseteq> set cand"
    unfolding blocks_def by (rule blocks_loop_subset) simp
  have sup: "set cand \<subseteq> set (concat ?bs)"
  proof
    fix x assume "x \<in> set cand"
    with blocks_loop_covers [OF assms, of cand x "{}" L r]
    show "x \<in> set (concat ?bs)" by (simp add: blocks_def)
  qed
  have d: "distinct (concat ?bs)"
    using blocks_loop_distinct [OF assms, of L r "{}" cand]
    by (simp add: blocks_def distinct_map)
  from d have "\<forall>b1\<in>set ?bs. \<forall>b2\<in>set ?bs. b1 \<noteq> b2 \<longrightarrow> set b1 \<inter> set b2 = {}"
    by (simp add: distinct_concat_iff)
  with sub sup d show ?thesis by auto
qed


theorem blocks_partition_witness:
  "\<Union> (set ` set (blocks cpython 200 [sunny_pk, depot, sunny_park])) = set [sunny_pk, depot, sunny_park]
   \<and> distinct (concat (blocks cpython 200 [sunny_pk, depot, sunny_park]))
   \<and> blocks cpython 200 [sunny_pk, depot, sunny_park] = [[sunny_pk, sunny_park], [depot]]"
proof -
  have d: "distinct (map idx [sunny_pk, depot, sunny_park])" by (simp add: rows sample_def)
  from blocks_partition [OF d, of cpython 200] trio_blocks show ?thesis by simp
qed

text \<open>
  C1 (as amended). Each block is its seed followed by exactly those rows of the
  bucket, in bucket order, that are not the seed, are in no earlier block, lie
  within the radius of the seed, and whose fuzzy score against the seed is at least
  80 or whose raw name and the seed's raw name are both true in Python (non-empty
  when strings) with equal normalised names. Only the seed is compared.
\<close>

theorem block_membership:
  assumes d: "distinct (map idx cand)"
      and bs: "blocks L radius_m cand = pre @ b # post"
  shows "\<exists>row\<in>set cand. row \<notin> \<Union> (set ` set pre) \<and>
     b = row # filter (\<lambda>row2. row2 \<noteq> row \<and> row2 \<notin> \<Union> (set ` set pre)
           \<and> distance (geometry row) (geometry row2) \<le> radius_m
           \<and> (fuzzy L (name row) (name row2) \<ge> 80
              \<or> (truthy (name row) \<and> truthy (name row2)
                 \<and> norm_name L (name row) = norm_name L (name row2)))) cand"
proof -
  let ?U = "\<Union> (set ` set pre)"
  from bs have "blocks_loop L radius_m cand {} cand = pre @ b # post" by (simp add: blocks_def)
  from blocks_loop_decomp [OF this] obtain row where
    row: "row \<in> set cand" "idx row \<notin> idx ` ?U" "b = block_of L radius_m cand (idx ` ?U) row"
    by auto
  have sub: "?U \<subseteq> set cand"
  proof -
    have "?U \<subseteq> set (concat (blocks L radius_m cand))" by (auto simp: bs)
    also have "\<dots> \<subseteq> set cand" unfolding blocks_def by (rule blocks_loop_subset) simp
    finally show ?thesis .
  qed
  have mem: "idx x \<in> idx ` ?U \<longleftrightarrow> x \<in> ?U" if "x \<in> set cand" for x
  proof
    assume "idx x \<in> idx ` ?U"
    then obtain y where y: "y \<in> ?U" "idx x = idx y" by auto
    with sub have "y \<in> set cand" by auto
    with d that y have "x = y" by (auto dest: idx_inj)
    with y show "x \<in> ?U" by simp
  next
    assume "x \<in> ?U" then show "idx x \<in> idx ` ?U" by simp
  qed
  have eqi: "idx x = idx row \<longleftrightarrow> x = row" if "x \<in> set cand" for x
    using d that row(1) by (auto dest: idx_inj)
  have "filter (joins L radius_m (idx ` ?U) row) cand
      = filter (\<lambda>row2. row2 \<noteq> row \<and> row2 \<notin> ?U
           \<and> distance (geometry row) (geometry row2) \<le> radius_m
           \<and> (fuzzy L (name row) (name row2) \<ge> 80
              \<or> (truthy (name row) \<and> truthy (name row2)
                 \<and> norm_name L (name row) = norm_name L (name row2)))) cand"
    by (rule filter_cong) (auto simp: joins_def name_match_def mem eqi)
  with row mem [OF row(1)] show ?thesis by (auto simp: block_of_def)
qed

theorem block_membership_witness:
  "\<exists>row\<in>set [sunny_pk, depot, sunny_park]. row \<notin> \<Union> (set ` set [[sunny_pk, sunny_park]]) \<and>
     [depot] = row # filter (\<lambda>row2. row2 \<noteq> row \<and> row2 \<notin> \<Union> (set ` set [[sunny_pk, sunny_park]])
           \<and> distance (geometry row) (geometry row2) \<le> 200
           \<and> (fuzzy cpython (name row) (name row2) \<ge> 80
              \<or> (truthy (name row) \<and> truthy (name row2)
                 \<and> norm_name cpython (name row) = norm_name cpython (name row2)))) [sunny_pk, depot, sunny_park]"
proof -
  have d: "distinct (map idx [sunny_pk, depot, sunny_park])" by (simp add: rows sample_def)
  have b: "blocks cpython 200 [sunny_pk, depot, sunny_park] = [[sunny_pk, sunny_park]] @ [depot] # []"
    using trio_blocks by simp
  from block_membership [OF d b] show ?thesis .
qed

text \<open>
  C1 as stated fails: the names \<open>!\<close> and \<open>?\<close> are non-empty, both normalise to the
  empty string and score 0, yet the second row joins the block of the first.
\<close>

theorem block_membership_counterexample:
  "blocks cpython 200 [bang, quest] = [[bang, quest]]
   \<and> \<not> (distance (geometry bang) (geometry quest) \<le> 200
        \<and> (fuzzy cpython (name bang) (name quest) \<ge> 80
           \<or> (norm_name cpython (name bang) = norm_name cpython (name quest)
              \<and> norm_name cpython (name bang) \<noteq> [])))"
  by (simp add: run rows)

text \<open>
  C5 (as amended). Two different records whose normalised names are both empty are
  never in the same block, unless both raw names are true in Python (non-empty
  strings, or \<open>NaN\<close>); the library is taken to score below 80 against an empty
  second string, as rapidfuzz does.
\<close>

theorem empty_names_apart:
  assumes tsr: "\<forall>a. token_set_ratio L a [] < 80"
      and b: "b \<in> set (blocks L radius_m cand)"
      and n: "norm_name L (name r1) = []" "norm_name L (name r2) = []"
      and raw: "\<not> (truthy (name r1) \<and> truthy (name r2))"
      and ne: "r1 \<noteq> r2"
  shows "\<not> (r1 \<in> set b \<and> r2 \<in> set b)"
proof
  assume both: "r1 \<in> set b \<and> r2 \<in> set b"
  from b obtain pre post where "blocks L radius_m cand = pre @ b # post"
    by (auto dest: split_list)
  then have "blocks_loop L radius_m cand {} cand = pre @ b # post" by (simp add: blocks_def)
  from blocks_loop_decomp [OF this] obtain row used where
    bl: "b = block_of L radius_m cand used row" by auto
  have member: "name_match L (name row) (name x)" if "x \<in> set b" "x \<noteq> row" for x
    using that bl by (auto simp: block_of_def joins_def)
  have low: "\<not> 80 \<le> token_set_ratio L a []" for a
    using tsr by (metis not_less)
  have seed: "x = row" if "x \<in> set b" "norm_name L (name x) = []" "\<not> truthy (name x)" for x
  proof (rule ccontr)
    assume "x \<noteq> row"
    with that(1) have "name_match L (name row) (name x)" by (rule member)
    with that(2,3) low show False by (simp add: name_match_def fuzzy_def)
  qed
  have pair: False
    if x: "x \<in> set b" "norm_name L (name x) = []" "\<not> truthy (name x)"
      and y: "y \<in> set b" "norm_name L (name y) = []" "x \<noteq> y" for x y
  proof -
    from x have "x = row" by (rule seed)
    with y have "name_match L (name x) (name y)" by (auto intro: member)
    with x y low show False by (simp add: name_match_def fuzzy_def)
  qed
  from raw have "\<not> truthy (name r1) \<or> \<not> truthy (name r2)" by simp
  then show False
  proof
    assume "\<not> truthy (name r1)"
    with both n ne show False by (auto intro: pair [of r1 r2])
  next
    assume "\<not> truthy (name r2)"
    with both n ne show False by (auto intro: pair [of r2 r1])
  qed
qed

theorem empty_names_apart_witness:
  "blocks cpython 200 [bang, quest, anonymous] = [[bang, quest], [anonymous]]
   \<and> \<not> (quest \<in> set [bang, quest] \<and> anonymous \<in> set [bang, quest])
   \<and> norm_name cpython (name quest) = [] \<and> norm_name cpython (name anonymous) = []"
proof -
  have tsr: "\<forall>a. token_set_ratio cpython a [] < 80" by (simp add: cpython_def rf_empty)
  have bl: "blocks cpython 200 [bang, quest, anonymous] = [[bang, quest], [anonymous]]"
    by (simp add: run rows)
  then have b: "[bang, quest] \<in> set (blocks cpython 200 [bang, quest, anonymous])" by simp
  have n: "norm_name cpython (name quest) = []" "norm_name cpython (name anonymous) = []"
    by (simp_all add: rows sample_def cpy)
  have raw: "\<not> (truthy (name quest) \<and> truthy (name anonymous))" by (simp add: rows sample_def)
  have ne: "quest \<noteq> anonymous" by (simp add: rows sample_def)
  from empty_names_apart [OF tsr b n raw ne] bl n show ?thesis by simp
qed

text \<open>
  C5 as stated fails: two names of punctuation only normalise to the empty string
  and score below 80, and the two records share one block.
\<close>

theorem empty_names_counterexample:
  "norm_name cpython (name bang) = [] \<and> norm_name cpython (name quest) = []
   \<and> cluster bang = cluster quest
   \<and> distance (geometry bang) (geometry quest) \<le> 200
   \<and> fuzzy cpython (name bang) (name quest) < 80
   \<and> blocks cpython 200 [bang, quest] = [[bang, quest]]"
  by (simp add: run rows)

section \<open>Merging: base record, backfill and provenance\<close>

lemmas rows2 = tagged_osm_def tagged_empty_def untagged_def base_row_def donor_row_def
  base_attrs_def donor_attrs_def zero_row_def five_row_def zero_phone_def five_phone_def

lemma tag_key_le:
  "tag_key a \<le> tag_key b \<longleftrightarrow> b = NaN \<or> (\<exists>s t. a = Str s \<and> b = Str t \<and> s \<le> t)"
  by (cases a; cases b) (auto simp: less_eq_prod_def)

lemma hd_sort_key_least:
  assumes "xs \<noteq> []"
  shows "hd (sort_key f xs) \<in> set xs \<and> (\<forall>m\<in>set xs. f (hd (sort_key f xs)) \<le> f m)"
proof -
  let ?ys = "sort_key f xs"
  from assms have ne: "?ys \<noteq> []" by (metis length_0_conv length_sort)
  then obtain y ys where ys: "?ys = y # ys" by (cases ?ys) auto
  have "sorted (map f ?ys)" by simp
  with ys have "\<forall>m\<in>set ?ys. f y \<le> f m" by auto
  moreover have "set ?ys = set xs" by simp
  moreover from ys have "y \<in> set ?ys" by simp
  ultimately show ?thesis using ys by auto
qed

lemma base_of_member: "block \<noteq> [] \<Longrightarrow> base_of block \<in> set block"
  using hd_sort_key_least [of block "\<lambda>k. tag_key (source_primary k)"] by (simp add: base_of_def)

lemma backfill_col_idx: "idx (backfill_col L cols block m c) = idx m"
  by (simp add: backfill_col_def split: option.splits)

lemma backfill_idx: "idx (foldl (backfill_col L cols block) m cs) = idx m"
  by (induction cs arbitrary: m) (simp_all add: backfill_col_idx)

lemma backfill_col_other:
  "c' \<noteq> c \<Longrightarrow> attrs (backfill_col L cols block m c') c = attrs m c"
  by (simp add: backfill_col_def split: option.splits)

lemma backfill_col_same:
  "attrs m' c = attrs m c \<Longrightarrow>
   attrs (backfill_col L cols block m' c) c = attrs (backfill_col L cols block m c) c"
  by (simp add: backfill_col_def split: option.splits)

lemma backfill_attrs:
  "distinct cs \<Longrightarrow>
   attrs (foldl (backfill_col L cols block) m cs) c
     = (if c \<in> set cs then attrs (backfill_col L cols block m c) c else attrs m c)"
proof (induction cs arbitrary: m)
  case Nil
  then show ?case by simp
next
  case (Cons c' cs)
  from Cons.prems have d: "distinct cs" and notin: "c' \<notin> set cs" by simp_all
  let ?m' = "backfill_col L cols block m c'"
  have step: "attrs (foldl (backfill_col L cols block) m (c' # cs)) c
      = (if c \<in> set cs then attrs (backfill_col L cols block ?m' c) c else attrs ?m' c)"
    using Cons.IH [OF d, of ?m'] by simp
  show ?case
  proof (cases "c' = c")
    case True
    with notin step show ?thesis by simp
  next
    case False
    then have "attrs ?m' c = attrs m c" by (rule backfill_col_other)
    with False step backfill_col_same [of ?m' c m L cols block] show ?thesis by auto
  qed
qed

lemma prefer_cols_all: "distinct prefer_cols \<and> c \<in> set prefer_cols"
  by (cases c) (simp_all add: prefer_cols_def)

lemmas mrg = merge_block_def provenance_def backfill_col_def base_of_def prefer_cols_def
  less_eq_prod_def Let_def

lemma base_of_least:
  assumes "block \<noteq> []"
  shows "\<forall>m\<in>set block. source_primary m = NaN
             \<or> (\<exists>s t. source_primary (base_of block) = Str s \<and> source_primary m = Str t \<and> s \<le> t)"
  using hd_sort_key_least [OF assms, of "\<lambda>k. tag_key (source_primary k)"]
  by (simp add: base_of_def tag_key_le)

text \<open>
  C2. In a block no tag of which is the empty string (\<open>pd.read_csv\<close> reads an empty
  cell as \<open>NaN\<close>, so the frames of the driver have none), the base record is a
  member that comes first when the members are ordered by source tag, the absent or
  empty tags after all others: every member has an absent or empty tag, or the base
  has a non-empty tag that is smaller than or equal to the member's in the
  lexicographic order of code points.
\<close>

theorem base_has_least_tag:
  assumes ne: "block \<noteq> []"
      and tags: "\<forall>m\<in>set block. source_primary m \<noteq> Str []"
  shows "base_of block \<in> set block
       \<and> (\<forall>m\<in>set block. tag_absent (source_primary m)
             \<or> (\<exists>s t. source_primary (base_of block) = Str s \<and> source_primary m = Str t
                      \<and> s \<noteq> [] \<and> s \<le> t))"
proof
  from ne show b: "base_of block \<in> set block" by (rule base_of_member)
  show "\<forall>m\<in>set block. tag_absent (source_primary m)
             \<or> (\<exists>s t. source_primary (base_of block) = Str s \<and> source_primary m = Str t
                      \<and> s \<noteq> [] \<and> s \<le> t)"
  proof
    fix m assume m: "m \<in> set block"
    with base_of_least [OF ne] have
      "source_primary m = NaN
       \<or> (\<exists>s t. source_primary (base_of block) = Str s \<and> source_primary m = Str t \<and> s \<le> t)"
      by blast
    then show "tag_absent (source_primary m)
             \<or> (\<exists>s t. source_primary (base_of block) = Str s \<and> source_primary m = Str t
                      \<and> s \<noteq> [] \<and> s \<le> t)"
    proof
      assume "source_primary m = NaN"
      then show ?thesis by (simp add: tag_absent_def)
    next
      assume "\<exists>s t. source_primary (base_of block) = Str s \<and> source_primary m = Str t \<and> s \<le> t"
      then obtain s t where st: "source_primary (base_of block) = Str s"
        "source_primary m = Str t" "s \<le> t" by blast
      from tags b st(1) have "s \<noteq> []" by auto
      with st show ?thesis by blast
    qed
  qed
qed

theorem base_has_least_tag_witness:
  "base_of [untagged, sunny_park, tagged_osm] = sunny_park
   \<and> source_primary sunny_park = Str (ascii ''brand'')
   \<and> source_primary tagged_osm = Str (ascii ''osm'')
   \<and> tag_absent (source_primary untagged)"
proof -
  have tags: "\<forall>m\<in>set [untagged, sunny_park, tagged_osm]. source_primary m \<noteq> Str []"
    by (simp add: rows rows2 sample_def ascii_def)
  have "base_of [untagged, sunny_park, tagged_osm] = sunny_park"
    by (simp add: base_of_def rows rows2 sample_def ascii_def less_eq_prod_def)
  with base_has_least_tag [OF _ tags] show ?thesis
    by (simp add: rows rows2 sample_def tag_absent_def)
qed

text \<open>
  A frame that holds the empty string itself as a tag is sorted otherwise: the
  empty string is a string and the smallest one, so it comes first.
\<close>

lemma base_of_empty_string_tag:
  "base_of [tagged_osm, tagged_empty] = tagged_empty
   \<and> source_primary tagged_empty = Str [] \<and> source_primary tagged_osm = Str (ascii ''osm'')"
  by (simp add: base_of_def rows2 sample_def ascii_def less_eq_prod_def)

text \<open>
  C3. The provenance of a merged record is the source tags, printed by \<open>str\<close> and
  joined by semicolons, of the members of the block other than the base, in block
  order and with repetitions.
\<close>

theorem provenance_of_block:
  assumes d: "distinct (map idx block)" and ne: "block \<noteq> []"
  shows "source_secondary (merge_block L cols block)
       = join [59] (map (\<lambda>k. str_cell (source_primary k)) (filter (\<lambda>k. k \<noteq> base_of block) block))"
proof -
  from ne have b: "base_of block \<in> set block" by (rule base_of_member)
  have "filter (\<lambda>k. idx k \<noteq> idx (base_of block)) block = filter (\<lambda>k. k \<noteq> base_of block) block"
    by (rule filter_cong) (use d b in \<open>auto dest: idx_inj\<close>)
  then show ?thesis by (simp add: merge_block_def provenance_def backfill_idx Let_def)
qed

theorem provenance_of_block_witness:
  "source_secondary (merge_block cpython prefer_cols [untagged, tagged_osm, tagged_empty]) = ascii ''nan;osm''
   \<and> base_of [untagged, tagged_osm, tagged_empty] = tagged_empty"
proof -
  have d: "distinct (map idx [untagged, tagged_osm, tagged_empty])" by (simp add: rows2 sample_def)
  have b: "base_of [untagged, tagged_osm, tagged_empty] = tagged_empty"
    by (simp add: base_of_def rows2 sample_def ascii_def less_eq_prod_def)
  have ne: "untagged \<noteq> tagged_empty" "tagged_osm \<noteq> tagged_empty" by (simp_all add: rows2 sample_def)
  from provenance_of_block [OF d, of cpython prefer_cols] b ne show ?thesis
    by (simp add: rows2 sample_def ascii_def)
qed

text \<open>
  C4 (as amended). A backfillable cell of the merged record is the cell of the base
  record, except when the column is in the frame and the base cell is missing by
  the test of line 44 (it is \<open>NaN\<close>, or false in Python: the empty string, 0, 0.0,
  \<open>False\<close>, or a string of whitespace only): then it is the cell of the first member
  of the block, in block order, that is not \<open>NaN\<close> and not blank, and the cell of
  the base record when there is no such member.
\<close>

theorem base_values_kept:
  "attrs (merge_block L cols block) c
     = (if c \<in> set cols \<and> base_missing L (attrs (base_of block) c)
        then (case find (\<lambda>k. donor_ok L (attrs k c)) block of
                None \<Rightarrow> attrs (base_of block) c
              | Some k \<Rightarrow> attrs k c)
        else attrs (base_of block) c)"
proof -
  have "attrs (merge_block L cols block) c
      = attrs (backfill_col L cols block (base_of block) c) c"
    using prefer_cols_all [of c] by (simp add: merge_block_def Let_def backfill_attrs)
  then show ?thesis by (simp add: backfill_col_def split: option.splits)
qed

theorem base_values_kept_witness:
  "attrs (merge_block cpython prefer_cols [donor_row, base_row]) operator_brand = VStr (ascii ''NRMA'')
   \<and> attrs (merge_block cpython prefer_cols [donor_row, base_row]) email = VStr (ascii ''a@b.c'')
   \<and> base_of [donor_row, base_row] = base_row"
proof -
  have b: "base_of [donor_row, base_row] = base_row"
    by (simp add: base_of_def rows2 sample_def ascii_def less_eq_prod_def)
  from base_values_kept [of cpython prefer_cols "[donor_row, base_row]" operator_brand]
       base_values_kept [of cpython prefer_cols "[donor_row, base_row]" email]
       b show ?thesis
    by (simp add: rows2 sample_def cpy prefer_cols_def)
qed

text \<open>
  C4 as stated fails for a base cell that is not empty and yet missing by line 44:
  a phone cell of one space is replaced by the phone number of the other member,
  and so is the number 0 in a phone column of integers.
\<close>

theorem base_values_kept_counterexample:
  "attrs (base_of [donor_row, base_row]) phone = VStr (ascii '' '')
   \<and> attrs (merge_block cpython prefer_cols [donor_row, base_row]) phone = VStr (ascii ''0400'')
   \<and> attrs (base_of [five_row, zero_row]) phone = VInt 0
   \<and> attrs (merge_block cpython prefer_cols [five_row, zero_row]) phone = VInt 5"
  by (simp add: mrg rows2 sample_def cpy)

section \<open>The fuzzy score and normalisation\<close>

lemma norm_name_twice_cell:
  "lower_closed L a \<Longrightarrow> norm_name L (Str (norm_name L a)) = norm_name L a"
proof (cases a)
  case NaN
  then show ?thesis by (simp add: strip_Nil)
next
  case (Str s)
  assume "lower_closed L a"
  with Str have "\<forall>c\<in>set s. keep L c \<longrightarrow> (\<forall>d\<in>set (lower L c). keep L d \<and> lower L d = [d])"
    by simp
  then have "norm_name L (Str (norm_name L (Str s))) = norm_name L (Str s)"
    by (rule norm_name_twice)
  with Str show ?thesis by simp
qed

text \<open>
  C10 (as amended). The score of two names is the score of their normalised forms,
  for names on which lower-casing stays inside the retained characters (every ASCII
  name, and a missing name).
\<close>

theorem fuzzy_prenormalised:
  assumes "lower_closed L a" and "lower_closed L b"
  shows "fuzzy L a b = fuzzy L (Str (norm_name L a)) (Str (norm_name L b))"
proof -
  from assms(1) have "norm_name L (Str (norm_name L a)) = norm_name L a"
    by (rule norm_name_twice_cell)
  moreover from assms(2) have "norm_name L (Str (norm_name L b)) = norm_name L b"
    by (rule norm_name_twice_cell)
  ultimately show ?thesis by (simp only: fuzzy_def)
qed

theorem fuzzy_prenormalised_witness:
  "fuzzy cpython (Str (ascii '' Sunny-Pk'')) NaN
     = fuzzy cpython (Str (norm_name cpython (Str (ascii '' Sunny-Pk'')))) (Str (norm_name cpython NaN))
   \<and> norm_name cpython (Str (ascii '' Sunny-Pk'')) = ascii ''sunnypk''"
proof -
  have a: "lower_closed cpython (Str (ascii '' Sunny-Pk''))" by (simp add: cpy)
  have b: "lower_closed cpython NaN" by simp
  have "norm_name cpython (Str (ascii '' Sunny-Pk'')) = ascii ''sunnypk''" by (simp add: cpy)
  with fuzzy_prenormalised [OF a b] show ?thesis by simp
qed

text \<open>
  C10 as stated fails: U+0130 normalises to \<open>i\<close> followed by U+0307 and then to
  \<open>i\<close>, so against the name \<open>i\<close> the raw names score 200/3 and the normalised
  names score 100.
\<close>

theorem fuzzy_prenormalised_counterexample:
  "fuzzy cpython (Str [304]) (Str [105])
     \<noteq> fuzzy cpython (Str (norm_name cpython (Str [304]))) (Str (norm_name cpython (Str [105])))"
  by (simp add: run)

section \<open>The driver\<close>

lemma reset_index_idx: "map idx (reset_index rows) = [0..<length rows]"
  by (auto simp: reset_index_def intro: nth_equalityI)

lemma those_to_geo:
  "those (map (to_geo proj) df) = Some gdf \<Longrightarrow>
   map idx gdf = map idx df \<and> (\<forall>g\<in>set gdf. latitude g \<noteq> None \<and> longitude g \<noteq> None)"
proof (induction df arbitrary: gdf)
  case Nil
  then show ?case by simp
next
  case (Cons r df)
  then show ?case
    by (auto simp: to_geo_def split: option.splits)
qed

lemma groupby_cluster_distinct:
  "distinct (map idx gdf) \<Longrightarrow> grp \<in> set (groupby_cluster gdf) \<Longrightarrow>
   distinct (map idx grp) \<and> set grp \<subseteq> set gdf"
  by (auto simp: groupby_cluster_def distinct_map_filter)

lemma backfill_col_coords:
  "latitude (backfill_col L cols block m c) = latitude m
   \<and> longitude (backfill_col L cols block m c) = longitude m"
  by (simp add: backfill_col_def split: option.splits)

lemma backfill_coords:
  "latitude (foldl (backfill_col L cols block) m cs) = latitude m
   \<and> longitude (foldl (backfill_col L cols block) m cs) = longitude m"
  by (induction cs arbitrary: m) (simp_all add: backfill_col_coords)

lemma merge_block_coords:
  "latitude (merge_block L cols block) = latitude (base_of block)
   \<and> longitude (merge_block L cols block) = longitude (base_of block)"
  by (simp add: merge_block_def Let_def backfill_coords)

lemma reset_index_coords:
  "m \<in> set (reset_index rows) \<Longrightarrow> \<exists>r\<in>set rows. latitude m = latitude r \<and> longitude m = longitude r"
  by (auto simp: reset_index_def dest!: set_zip_rightD)

text \<open>Every group that the driver clusters has unique index labels.\<close>

lemma main_groups_distinct:
  assumes "those (map (to_geo proj) (filter has_coords (map fillna_name (reset_index (concat frames))))) = Some gdf"
      and "grp \<in> set (groupby_cluster gdf)"
  shows "distinct (map idx grp)"
proof -
  let ?df = "reset_index (concat frames)"
  have "map idx (map fillna_name ?df) = map idx ?df"
    by (simp add: fillna_name_def split: cell.splits)
  then have "distinct (map idx (map fillna_name ?df))" by (simp add: reset_index_idx)
  then have "distinct (map idx (filter has_coords (map fillna_name ?df)))"
    by (rule distinct_map_filter)
  with those_to_geo [OF assms(1)] have "distinct (map idx gdf)" by simp
  with assms(2) show ?thesis by (simp add: groupby_cluster_distinct)
qed

text \<open>A run of the driver that succeeds writes no row without coordinates.\<close>

lemma main_output_has_coords:
  assumes "main proj L cols frames = Inr out" and "m \<in> set out"
  shows "latitude m \<noteq> None \<and> longitude m \<noteq> None"
proof -
  let ?df = "filter has_coords (map fillna_name (reset_index (concat frames)))"
  from assms have ne: "reset_index (concat frames) \<noteq> []" by (auto simp: main_def Let_def)
  with assms(1) have g: "geo_dedup proj L 200 cols ?df = Inr out" by (simp add: main_def Let_def)
  then obtain gdf where gdf: "those (map (to_geo proj) ?df) = Some gdf"
    and out: "out = reset_index (concat (map (dedup_group L 200 cols) (groupby_cluster gdf)))"
    by (auto simp: geo_dedup_def Let_def split: option.splits if_splits)
  from assms(2) out obtain r where
    r: "r \<in> set (concat (map (dedup_group L 200 cols) (groupby_cluster gdf)))"
       "latitude m = latitude r" "longitude m = longitude r"
    using reset_index_coords by blast
  then obtain grp b where grp: "grp \<in> set (groupby_cluster gdf)"
    and b: "b \<in> set (blocks L 200 grp)" and rb: "r = merge_block L cols b"
    by (auto simp: dedup_group_def)
  from b have "b \<noteq> []" unfolding blocks_def by (rule blocks_nonempty)
  then have "base_of b \<in> set b" by (rule base_of_member)
  moreover from b have "set b \<subseteq> set (concat (blocks L 200 grp))" by auto
  moreover have "set (concat (blocks L 200 grp)) \<subseteq> set grp"
    unfolding blocks_def by (rule blocks_loop_subset) simp
  moreover from grp have "set grp \<subseteq> set gdf" by (auto simp: groupby_cluster_def)
  ultimately have "base_of b \<in> set gdf" by blast
  with those_to_geo [OF gdf] have "latitude (base_of b) \<noteq> None \<and> longitude (base_of b) \<noteq> None"
    by simp
  with r rb show ?thesis by (simp add: merge_block_coords)
qed

text \<open>
  The driver has a guard of its own for a frame that is empty as read: it writes
  the empty frame and does not call \<open>_geo_dedup\<close> (lines 62 to 65).
\<close>

lemma main_empty_input: "main proj L cols (replicate n []) = Inr []"
  by (simp add: main_def reset_index_def)

text \<open>
  The guard comes before the rows without coordinates are dropped, so the driver
  does hand \<open>_geo_dedup\<close> the empty collection: here, from one record without
  latitude.
\<close>

lemma main_hands_empty:
  "filter has_coords (map fillna_name (reset_index (concat [[r\<lparr>latitude := None\<rparr>]]))) = []"
  by (simp add: reset_index_def fillna_name_def has_coords_def split: cell.splits)

text \<open>
  C7, at the input where the code does not do what the claim says: \<open>_geo_dedup\<close>
  on the empty collection of records. No block is built, \<open>pd.DataFrame(out_rows)\<close>
  has no column, and dropping \<open>geometry\<close> and \<open>cluster\<close> from it (line 52) raises
  \<open>KeyError\<close>; no empty output is returned.
\<close>

theorem geo_dedup_empty: "geo_dedup proj L radius_m cols [] = Inl KeyError"
  by (simp add: geo_dedup_def groupby_cluster_def)

text \<open>
  C6, at an input where the code does not do what the claim says: the only record
  has no latitude. It is dropped, \<open>_geo_dedup\<close> receives the empty frame, and the
  run ends in \<open>KeyError\<close> instead of writing an output without that record.
\<close>

theorem main_only_row_without_latitude:
  "main proj L cols [[r\<lparr>latitude := None\<rparr>]] = Inl KeyError"
  by (simp add: main_def reset_index_def fillna_name_def has_coords_def geo_dedup_def
      groupby_cluster_def split: cell.splits)


end
